theory Spec2Isabelle
  imports Complex_Main "HOL-Library.Multiset"
begin

section \<open>Strings\<close>

text \<open>
  Python strings are modelled as \<^typ>\<open>string\<close>; a character stands for a code point below
  256. \<open>str.strip()\<close> without argument removes leading and trailing whitespace, that is the
  characters for which \<open>str.isspace\<close> holds: TAB, LF, VT, FF, CR, the separators
  \<open>0x1c\<close> to \<open>0x1f\<close>, the space, NEL (\<open>0x85\<close>) and the no-break space (\<open>0xa0\<close>).
\<close>

definition isspace :: "char \<Rightarrow> bool" where
  "isspace c = (of_char c \<in> {9, 10, 11, 12, 13, 28, 29, 30, 31, 32, 133, 160 :: nat})"

definition strip :: "string \<Rightarrow> string" where
  "strip s = rev (dropWhile isspace (rev (dropWhile isspace s)))"

text \<open>\<open>a or b\<close> on strings: the empty string is falsy.\<close>

definition str_or :: "string \<Rightarrow> string \<Rightarrow> string" where
  "str_or a b = (if a = [] then b else a)"

text \<open>\<open>a or None\<close> on a string.\<close>

definition or_None :: "string \<Rightarrow> string option" where
  "or_None a = (if a = [] then None else Some a)"

section \<open>Exceptions\<close>

text \<open>
  An exception is kept with its message, \<open>str(err)\<close>. \<open>AttributeError\<close> is what the
  read of an attribute that an object does not have raises.
\<close>

datatype exn = APIError string | AttributeError string | Exception string

fun str_exn :: "exn \<Rightarrow> string" where
  "str_exn (APIError m) = m"
| "str_exn (AttributeError m) = m"
| "str_exn (Exception m) = m"

section \<open>Module state of \<open>service.py\<close>\<close>

text \<open>
  One entry of \<open>detection_dict[index]\<close>: the dictionary with the keys \<open>detected\<close>,
  \<open>driver\<close>, \<open>predicted\<close> and \<open>execution_time\<close>.
\<close>

record outcome =
  detected :: bool
  driver :: string
  predicted :: string
  execution_time :: real

text \<open>
  The globals of the module. \<open>detection_dict\<close> is a \<open>defaultdict(list)\<close>, kept as an
  association list in insertion order. \<open>driver_queue\<close> is the deque \<open>_driver_queue\<close>.
  \<open>waiters\<close> is the number of threads blocked in \<open>_driver_condition.wait\<close>, which the
  condition keeps in its private list \<open>_waiters\<close>. \<open>clock\<close> is the time in seconds; floats
  are taken as reals and \<open>time.time\<close> and \<open>time.monotonic\<close> as one clock.
\<close>

record state =
  detection_dict :: "(nat \<times> outcome list) list"
  driver_queue :: "string list"
  waiters :: nat
  clock :: real

text \<open>
  The read \<open>_driver_condition.waiters\<close>. A \<open>threading.Condition\<close> has the attribute
  \<open>_waiters\<close> and no attribute \<open>waiters\<close>, so the read raises \<open>AttributeError\<close>,
  whatever the state.
\<close>

definition condition_waiters :: "state \<Rightarrow> exn + nat" where
  "condition_waiters s = Inl (AttributeError ''Condition object has no attribute waiters'')"

text \<open>\<open>Condition.notify()\<close>: one waiting thread, if any, is woken and no longer waits.\<close>

definition notify :: "state \<Rightarrow> state" where
  "notify s = s\<lparr>waiters := waiters s - 1\<rparr>"

text \<open>
  \<open>post_driver\<close> of \<open>service.py\<close>: the exception that leaves it, or \<open>pending\<close>, which the
  function only logs. The exception of the read of \<open>waiters\<close> leaves the \<open>with\<close> block
  before the queue is touched.
\<close>

definition post_driver :: "string \<Rightarrow> state \<Rightarrow> (exn + nat) \<times> state" where
  "post_driver d s =
     (let driver_value = strip (str_or d [])
      in case condition_waiters s of
           Inl err \<Rightarrow> (Inl err, s)
         | Inr w \<Rightarrow>
             if w \<noteq> 0
             then (let s' = notify (s\<lparr>driver_queue := driver_queue s @ [driver_value]\<rparr>)
                   in (Inr (length (driver_queue s')), s'))
             else (Inr 0, s))"

text \<open>
  \<open>post_driver\<close> of \<open>router.py\<close>, the \<open>/driver\<close> endpoint: the status of the answer, 500
  when the service function raises.
\<close>

definition driver_endpoint :: "string \<Rightarrow> state \<Rightarrow> nat \<times> state" where
  "driver_endpoint d s =
     (case post_driver d s of
        (Inl err, s') \<Rightarrow> (500, s')
      | (Inr pending, s') \<Rightarrow> (200, s'))"

definition clear_driver_queue :: "state \<Rightarrow> state" where
  "clear_driver_queue s = s\<lparr>driver_queue := []\<rparr>"

text \<open>The other threads: the submissions that reach the \<open>/driver\<close> endpoint, one after the other.\<close>

definition submit_all :: "string list \<Rightarrow> state \<Rightarrow> state" where
  "submit_all ds s = fold (\<lambda>d st. snd (driver_endpoint d st)) ds s"

text \<open>
  What happens while the scoring thread is blocked is given by a schedule: each element
  \<open>(delay, reports)\<close> says that \<open>delay\<close> seconds after the previous element (or after the
  thread blocked), the submissions \<open>reports\<close> reach the endpoint before the thread runs again.
  An exhausted schedule means that nothing more is submitted.

  \<open>blocked\<close> is the thread while it is among the waiters: when the timeout comes before the
  next submissions, the thread wakes at the deadline and removes itself from the waiters;
  otherwise the submissions are handled, and the thread wakes if a \<open>notify\<close> took it from the
  waiters and stays blocked if not. The result is the rest of the schedule and the state.
  \<open>_driver_condition.wait(timeout)\<close> registers the thread as a waiter and blocks.
\<close>

type_synonym wake = "real \<times> string list"

fun blocked :: "wake list \<Rightarrow> real \<Rightarrow> state \<Rightarrow> wake list \<times> state" where
  "blocked [] timeout s = ([], s\<lparr>waiters := waiters s - 1, clock := clock s + timeout\<rparr>)"
| "blocked ((delay, reports) # sched) timeout s =
     (if timeout \<le> max 0 delay
      then ([], s\<lparr>waiters := waiters s - 1, clock := clock s + timeout\<rparr>)
      else (let s1 = submit_all reports (s\<lparr>clock := clock s + max 0 delay\<rparr>)
            in if waiters s1 < waiters s then (sched, s1)
               else blocked sched (timeout - max 0 delay) s1))"

definition condition_wait :: "wake list \<Rightarrow> real \<Rightarrow> state \<Rightarrow> wake list \<times> state" where
  "condition_wait sched timeout s = blocked sched timeout (s\<lparr>waiters := waiters s + 1\<rparr>)"

text \<open>The \<open>while True\<close> loop of \<open>_wait_for_driver_result\<close>, run under the lock.\<close>

function wait_loop :: "wake list \<Rightarrow> real \<Rightarrow> state \<Rightarrow> string option \<times> state" where
  "wait_loop sched deadline s =
     (case driver_queue s of
        d # q \<Rightarrow> (or_None (strip (str_or d [])), s\<lparr>driver_queue := q\<rparr>)
      | [] \<Rightarrow>
          if deadline - clock s \<le> 0 then (None, s)
          else wait_loop (fst (condition_wait sched (deadline - clock s) s)) deadline
                 (snd (condition_wait sched (deadline - clock s) s)))"
  by pat_completeness auto
termination
proof (relation "measure (\<lambda>(sched, deadline, s).
          2 * length sched + (if clock s < deadline then 1 else 0))")
  show "wf (measure (\<lambda>(sched, deadline, s).
          2 * length sched + (if clock s < deadline then 1 else 0)))"
    by simp
next
  fix sched :: "wake list" and deadline :: real and s :: state
  assume running: "\<not> deadline - clock s \<le> 0"
  have progress: "length (fst (blocked sc t st)) < length sc \<or>
      fst (blocked sc t st) = [] \<and> clock (snd (blocked sc t st)) = clock st + t"
    for sc t st
  proof (induction sc arbitrary: t st)
    case Nil
    show ?case by simp
  next
    case (Cons w sc)
    obtain delay reports where w: "w = (delay, reports)" by (cases w)
    have same: "clock (submit_all ds x) = clock x" for ds x
      by (induction ds arbitrary: x)
         (simp_all add: submit_all_def driver_endpoint_def post_driver_def notify_def Let_def
            split: sum.splits)
    let ?s1 = "submit_all reports (st\<lparr>clock := clock st + max 0 delay\<rparr>)"
    show ?case
      using Cons.IH[of "t - max 0 delay" ?s1] w
      by (auto simp: Let_def same)
  qed
  show "((fst (condition_wait sched (deadline - clock s) s), deadline,
          snd (condition_wait sched (deadline - clock s) s)), (sched, deadline, s))
        \<in> measure (\<lambda>(sched, deadline, s).
             2 * length sched + (if clock s < deadline then 1 else 0))"
    using running progress[of sched "deadline - clock s" "s\<lparr>waiters := waiters s + 1\<rparr>"]
    by (auto simp: condition_wait_def)
qed

definition wait_for_driver_result ::
    "real \<Rightarrow> string \<Rightarrow> wake list \<Rightarrow> state \<Rightarrow> string option \<times> state" where
  "wait_for_driver_result timeout_seconds framework_name sched s =
     wait_loop sched (clock s + max timeout_seconds 0) s"

section \<open>The container runner of \<open>utils.py\<close>\<close>

text \<open>The calls that \<open>run_bot_container\<close> makes to the container engine and the host.\<close>

datatype docker_call =
    NetworksList | NetworksCreate | NetworksGet | InspectNetwork
  | IptablesForward | IptablesNat | StopContainer
  | ContainersRun | LogThreadStart
  | ContainerWait | ContainerStop | ContainerRemove

text \<open>
  How the engine answers during one call of \<open>run_bot_container\<close>: each operation returns or
  raises. \<open>networks_list\<close> tells whether the list of networks of that name is non-empty;
  \<open>inspect_network\<close> stands for the inspection and the reading of the subnet and the gateway
  from its answer.
\<close>

record runtime =
  networks_list :: "exn + bool"
  networks_create :: "exn + unit"
  networks_get :: "exn + unit"
  inspect_network :: "exn + unit"
  iptables_forward :: "exn + unit"
  iptables_nat :: "exn + unit"
  stop_container :: "exn + unit"
  containers_run :: "exn + unit"
  log_thread_start :: "exn + unit"
  container_wait :: "exn + unit"
  container_stop :: "exn + unit"
  container_remove :: "exn + unit"

text \<open>A computation that records the calls it makes and returns or raises.\<close>

type_synonym 'a traced = "docker_call list \<times> (exn + 'a)"

text \<open>A call whose exception propagates: the rest does not run.\<close>

definition call :: "docker_call \<Rightarrow> exn + 'a \<Rightarrow> ('a \<Rightarrow> 'b traced) \<Rightarrow> 'b traced" where
  "call c r k =
     (case r of
        Inl e \<Rightarrow> ([c], Inl e)
      | Inr v \<Rightarrow> (case k v of (tr, res) \<Rightarrow> (c # tr, res)))"

text \<open>A call in a \<open>try\<close> whose handlers do not raise again: the rest runs in any case.\<close>

definition attempt :: "docker_call \<Rightarrow> exn + 'a \<Rightarrow> 'b traced \<Rightarrow> 'b traced" where
  "attempt c r k = (case k of (tr, res) \<Rightarrow> (c # tr, res))"

text \<open>
  \<open>run_bot_container\<close>. The outer handler logs and raises again, so an exception of the
  network setup, of the firewall commands, of \<open>containers.run\<close> or of the start of the log
  thread leaves the function. \<open>stop_container\<close> (\<open>docker rm -f\<close> by name) swallows its
  exceptions. The \<open>try\<close> around \<open>_container.wait\<close> handles every exception and its
  \<open>finally\<close> stops and removes the container, each in a \<open>try\<close> of its own.
\<close>

definition run_bot_container :: "runtime \<Rightarrow> unit traced" where
  "run_bot_container rt =
     call NetworksList (networks_list rt) (\<lambda>found.
     call (if \<not> found then NetworksCreate else NetworksGet)
          (if \<not> found then networks_create rt else networks_get rt) (\<lambda>_.
     call InspectNetwork (inspect_network rt) (\<lambda>_.
     call IptablesForward (iptables_forward rt) (\<lambda>_.
     call IptablesNat (iptables_nat rt) (\<lambda>_.
     attempt StopContainer (stop_container rt) (
     call ContainersRun (containers_run rt) (\<lambda>_.
     call LogThreadStart (log_thread_start rt) (\<lambda>_.
     attempt ContainerWait (container_wait rt) (
     attempt ContainerStop (container_stop rt) (
     attempt ContainerRemove (container_remove rt) ([], Inr ())))))))))))"

text \<open>Whether a call returned rather than raised.\<close>

definition returns :: "exn + 'a \<Rightarrow> bool" where
  "returns r = (case r of Inl _ \<Rightarrow> False | Inr _ \<Rightarrow> True)"

text \<open>
  Whether the container exists: everything up to \<open>containers.run\<close> returned.
\<close>

definition created :: "runtime \<Rightarrow> bool" where
  "created rt =
     (case networks_list rt of
        Inl _ \<Rightarrow> False
      | Inr found \<Rightarrow>
          returns (if \<not> found then networks_create rt else networks_get rt) \<and>
          returns (inspect_network rt) \<and> returns (iptables_forward rt) \<and>
          returns (iptables_nat rt) \<and> returns (containers_run rt))"

text \<open>Whether everything up to the start of the log thread returned: the container runs.\<close>

definition launched :: "runtime \<Rightarrow> bool" where
  "launched rt =
     (case networks_list rt of
        Inl _ \<Rightarrow> False
      | Inr found \<Rightarrow>
          returns (if \<not> found then networks_create rt else networks_get rt) \<and>
          returns (inspect_network rt) \<and> returns (iptables_forward rt) \<and>
          returns (iptables_nat rt) \<and>
          returns (containers_run rt) \<and> returns (log_thread_start rt))"

section \<open>The trial sequence\<close>

record framework_entry =
  framework_name :: string
  image :: string

text \<open>The part of \<open>config.challenge\<close> that the scoring run reads.\<close>

record config =
  framework_images :: "framework_entry list"
  repeated_framework_count :: nat
  pushcut_timeout :: real
  bot_timeout :: real

definition DRIVER_GRACE_SECONDS :: real where
  "DRIVER_GRACE_SECONDS = 5"

text \<open>
  \<open>random.shuffle\<close> is the Fisher-Yates loop of the standard library:
  \<open>for i in reversed(range(1, len(x))): j = randbelow(i + 1); x[i], x[j] = x[j], x[i]\<close>.
  The random numbers come from a list; \<open>randbelow n\<close> takes the next one below \<open>n\<close>.
\<close>

definition randbelow :: "nat list \<Rightarrow> nat \<Rightarrow> nat \<times> nat list" where
  "randbelow rs n = (case rs of [] \<Rightarrow> (0, []) | r # rs' \<Rightarrow> (r mod n, rs'))"

fun shuffle_loop :: "nat \<Rightarrow> nat list \<Rightarrow> 'a list \<Rightarrow> 'a list" where
  "shuffle_loop 0 rs x = x"
| "shuffle_loop (Suc i) rs x =
     (case randbelow rs (Suc i + 1) of
        (j, rs') \<Rightarrow> shuffle_loop i rs' (x[Suc i := x ! j, j := x ! Suc i]))"

definition shuffle :: "nat list \<Rightarrow> 'a list \<Rightarrow> 'a list" where
  "shuffle rs x = shuffle_loop (length x - 1) rs x"

text \<open>\<open>for _ in range(n): repeated_frameworks.extend(frameworks)\<close>\<close>

fun repeat_extend :: "nat \<Rightarrow> 'a list \<Rightarrow> 'a list \<Rightarrow> 'a list" where
  "repeat_extend 0 frameworks repeated_frameworks = repeated_frameworks"
| "repeat_extend (Suc n) frameworks repeated_frameworks =
     repeat_extend n frameworks (repeated_frameworks @ frameworks)"

definition gen_ran_framework_sequence :: "config \<Rightarrow> nat list \<Rightarrow> framework_entry list" where
  "gen_ran_framework_sequence cfg rs =
     shuffle rs (repeat_extend (repeated_framework_count cfg) (framework_images cfg) [])"

section \<open>The scoring run of \<open>service.py\<close>\<close>

text \<open>\<open>d[key].append(v)\<close> on a \<open>defaultdict(list)\<close>: a new key goes to the end.\<close>

fun append_to :: "'k \<Rightarrow> 'v \<Rightarrow> ('k \<times> 'v list) list \<Rightarrow> ('k \<times> 'v list) list" where
  "append_to k v [] = [(k, [v])]"
| "append_to k v ((k', vs) # d) =
     (if k' = k then (k', vs @ [v]) # d else (k', vs) # append_to k v d)"

definition record_outcome :: "nat \<Rightarrow> outcome \<Rightarrow> state \<Rightarrow> state" where
  "record_outcome index r s = s\<lparr>detection_dict := append_to index r (detection_dict s)\<rparr>"

text \<open>
  What the world does during one trial: whether the call of the human trigger raises, how
  the container engine answers, how long the trigger or the container run takes
  (\<open>busy\<close>), the submissions handled in that time, and the schedule of the wait that follows.
\<close>

record trial_env =
  pushcut_execute :: "exn + unit"
  engine :: runtime
  busy :: real
  early_reports :: "string list"
  schedule :: "wake list"

definition busy_phase :: "trial_env \<Rightarrow> state \<Rightarrow> state" where
  "busy_phase te s = submit_all (early_reports te) (s\<lparr>clock := clock s + max 0 (busy te)\<rparr>)"

text \<open>
  The body of the loop over the trial sequence. An exception of \<open>pushcut.execute\<close> is logged
  in a handler of its own; an exception of \<open>run_bot_container\<close> reaches the handler of the
  trial, which records a failed outcome.
\<close>

definition run_trial :: "config \<Rightarrow> trial_env \<Rightarrow> nat \<Rightarrow> framework_entry \<Rightarrow> state \<Rightarrow> state" where
  "run_trial cfg te index framework_entry s =
     (let framework_image_name = framework_name framework_entry;
          start_time = clock s;
          s1 = clear_driver_queue s
      in if framework_image_name = ''human'' then
           (let s2 = (case pushcut_execute te of
                        Inl e \<Rightarrow> busy_phase te s1
                      | Inr _ \<Rightarrow> busy_phase te s1)
            in case wait_for_driver_result (pushcut_timeout cfg + DRIVER_GRACE_SECONDS)
                      framework_image_name (schedule te) s2 of
                 (human_driver, s3) \<Rightarrow>
                   (let predicted_value =
                          (case human_driver of
                             Some h \<Rightarrow> h
                           | None \<Rightarrow> ''No driver reported'')
                    in record_outcome index
                         \<lparr>detected = (human_driver = Some framework_image_name),
                          driver = framework_image_name,
                          predicted = predicted_value,
                          execution_time = clock s3 - start_time\<rparr> s3))
         else
           (let s2 = busy_phase te s1
            in case snd (run_bot_container (engine te)) of
                 Inl err \<Rightarrow>
                   record_outcome index
                     \<lparr>detected = False,
                      driver = framework_image_name,
                      predicted = ''Error: '' @ str_exn err,
                      execution_time = 0\<rparr> s2
               | Inr _ \<Rightarrow>
                   (case wait_for_driver_result (bot_timeout cfg + DRIVER_GRACE_SECONDS)
                           framework_image_name (schedule te) s2 of
                      (detected_driver, s3) \<Rightarrow>
                        (let s4 = s3\<lparr>clock := clock s3 + 1\<rparr>;
                             none_returned =
                               \<lparr>detected = False,
                                driver = framework_image_name,
                                predicted = ''The script did not return any driver'',
                                execution_time = clock s3 - start_time\<rparr>
                         in case detected_driver of
                              None \<Rightarrow> record_outcome index none_returned s4
                            | Some dd \<Rightarrow>
                                if dd = [] then record_outcome index none_returned s4
                                else if dd = framework_image_name then
                                  record_outcome index
                                    \<lparr>detected = True,
                                     driver = framework_image_name,
                                     predicted = dd,
                                     execution_time = clock s3 - start_time\<rparr> s4
                                else
                                  record_outcome index
                                    \<lparr>detected = False,
                                     driver = framework_image_name,
                                     predicted = dd,
                                     execution_time = clock s3 - start_time\<rparr> s4))))"

text \<open>\<open>for index, framework_entry in enumerate(random_frameworks)\<close>\<close>

fun trial_loop ::
    "config \<Rightarrow> (nat \<Rightarrow> trial_env) \<Rightarrow> nat \<Rightarrow> framework_entry list \<Rightarrow> state \<Rightarrow> state" where
  "trial_loop cfg tes index [] s = s"
| "trial_loop cfg tes index (framework_entry # rest) s =
     trial_loop cfg tes (Suc index) rest (run_trial cfg (tes index) index framework_entry s)"

text \<open>The results regrouped by driver, \<open>framework_results\<close>.\<close>

definition framework_results_of ::
    "(nat \<times> outcome list) list \<Rightarrow> (string \<times> outcome list) list" where
  "framework_results_of dd =
     fold (\<lambda>(index, results) fr.
             fold (\<lambda>result fr'. append_to (driver result) result fr') results fr)
          dd []"

text \<open>The two counters \<open>(total_detections, successful_detections)\<close>.\<close>

definition count_detections :: "(string \<times> outcome list) list \<Rightarrow> nat \<times> nat" where
  "count_detections framework_results =
     fold (\<lambda>(name, results) acc.
             fold (\<lambda>result (total_detections, successful_detections).
                     (total_detections + 1,
                      if detected result then successful_detections + 1
                      else successful_detections))
                  results acc)
          framework_results (0, 0)"

definition calc_score :: "(nat \<times> outcome list) list \<Rightarrow> real" where
  "calc_score dd =
     (case count_detections (framework_results_of dd) of
        (total_detections, successful_detections) \<Rightarrow>
          if total_detections > 0
          then real successful_detections / real total_detections
          else 0)"

text \<open>
  What the world does during one run: whether the copy of the submitted script and the
  connection to the container engine raise, the random numbers of the shuffle, and the
  environment of each trial.
\<close>

record run_env =
  copy_detector_file :: "exn + unit"
  random_source :: "nat list"
  docker_from_env :: "exn + unit"
  trial_envs :: "nat \<Rightarrow> trial_env"

text \<open>
  \<open>score\<close>: the result is the exception that leaves the function or the score; the
  \<open>finally\<close> clears the queue on both ways out.
\<close>

definition score :: "config \<Rightarrow> run_env \<Rightarrow> state \<Rightarrow> (exn + real) \<times> state" where
  "score cfg env s =
     (let s0 = clear_driver_queue (s\<lparr>detection_dict := []\<rparr>)
      in case copy_detector_file env of
           Inl err \<Rightarrow> (Inl err, clear_driver_queue s0)
         | Inr _ \<Rightarrow>
             (let random_frameworks = gen_ran_framework_sequence cfg (random_source env)
              in case docker_from_env env of
                   Inl err \<Rightarrow> (Inl err, clear_driver_queue s0)
                 | Inr _ \<Rightarrow>
                     (let s1 = trial_loop cfg (trial_envs env) 0 random_frameworks s0
                      in (Inr (calc_score (detection_dict s1)), clear_driver_queue s1))))"

text \<open>\<open>post_score\<close> of \<open>router.py\<close>: any exception of \<open>service.score\<close> gives \<open>None\<close>.\<close>

definition post_score :: "config \<Rightarrow> run_env \<Rightarrow> state \<Rightarrow> real option \<times> state" where
  "post_score cfg env s =
     (case score cfg env s of
        (Inl err, s') \<Rightarrow> (None, s')
      | (Inr sc, s') \<Rightarrow> (Some sc, s'))"

section \<open>Notions used to state the properties\<close>

text \<open>The state of the module right after it is loaded.\<close>

definition idle :: state where
  "idle = \<lparr>detection_dict = [], driver_queue = [], waiters = 0, clock = 0\<rparr>"

text \<open>An engine on which every operation returns.\<close>

definition healthy :: runtime where
  "healthy =
     \<lparr>networks_list = Inr True, networks_create = Inr (), networks_get = Inr (),
      inspect_network = Inr (), iptables_forward = Inr (), iptables_nat = Inr (),
      stop_container = Inr (), containers_run = Inr (), log_thread_start = Inr (),
      container_wait = Inr (), container_stop = Inr (), container_remove = Inr ()\<rparr>"

text \<open>All the outcomes that a \<open>detection_dict\<close> holds.\<close>

definition recorded_outcomes :: "(nat \<times> outcome list) list \<Rightarrow> outcome list" where
  "recorded_outcomes dd = concat (map snd dd)"

text \<open>\<open>detection_dict[index]\<close>, empty for a key that is absent.\<close>

definition recorded_at :: "nat \<Rightarrow> state \<Rightarrow> outcome list" where
  "recorded_at index s = (case map_of (detection_dict s) index of None \<Rightarrow> [] | Some rs \<Rightarrow> rs)"

text \<open>The timeout of the wait of a trial.\<close>

definition trial_timeout :: "config \<Rightarrow> framework_entry \<Rightarrow> real" where
  "trial_timeout cfg fe =
     (if framework_name fe = ''human'' then pushcut_timeout cfg else bot_timeout cfg)
     + DRIVER_GRACE_SECONDS"

text \<open>Whether a trial gets as far as its wait: the human trial always, a container trial
  when its container was launched.\<close>

definition reaches_wait :: "trial_env \<Rightarrow> framework_entry \<Rightarrow> bool" where
  "reaches_wait te fe = (framework_name fe = ''human'' \<or> launched (engine te))"

text \<open>What the wait of a trial returns.\<close>

definition observed :: "config \<Rightarrow> trial_env \<Rightarrow> framework_entry \<Rightarrow> state \<Rightarrow> string option" where
  "observed cfg te fe s =
     fst (wait_for_driver_result (trial_timeout cfg fe) (framework_name fe) (schedule te)
            (busy_phase te (clear_driver_queue s)))"

text \<open>The outcome that the handler of a trial records for an exception.\<close>

definition error_outcome :: "string \<Rightarrow> exn \<Rightarrow> outcome" where
  "error_outcome name err =
     \<lparr>detected = False, driver = name, predicted = ''Error: '' @ str_exn err,
      execution_time = 0\<rparr>"

text \<open>Whether the setup of a run (copy of the script, connection to the engine) returns.\<close>

definition setup_ok :: "run_env \<Rightarrow> bool" where
  "setup_ok env = (returns (copy_detector_file env) \<and> returns (docker_from_env env))"

text \<open>The state after the last trial of a run whose setup returned.\<close>

definition after_trials :: "config \<Rightarrow> run_env \<Rightarrow> state \<Rightarrow> state" where
  "after_trials cfg env s =
     trial_loop cfg (trial_envs env) 0 (gen_ran_framework_sequence cfg (random_source env))
       (clear_driver_queue (s\<lparr>detection_dict := []\<rparr>))"

text \<open>An outcome of a trial that reached its wait and got a report.\<close>

definition outcome_of :: "string \<Rightarrow> string \<Rightarrow> outcome" where
  "outcome_of expected reported =
     \<lparr>detected = (reported = expected), driver = expected, predicted = reported,
      execution_time = 1\<rparr>"

text \<open>Sample data.\<close>

definition firefox :: framework_entry where
  "firefox = \<lparr>framework_name = ''firefox'', image = ''firefox:latest''\<rparr>"

definition human :: framework_entry where
  "human = \<lparr>framework_name = ''human'', image = []\<rparr>"

definition two_frameworks :: config where
  "two_frameworks =
     \<lparr>framework_images = [firefox, human], repeated_framework_count = 1,
      pushcut_timeout = 30, bot_timeout = 15\<rparr>"

definition quiet :: trial_env where
  "quiet = \<lparr>pushcut_execute = Inr (), engine = healthy, busy = 3, early_reports = [],
            schedule = []\<rparr>"

definition calm :: run_env where
  "calm = \<lparr>copy_detector_file = Inr (), random_source = [], docker_from_env = Inr (),
           trial_envs = (\<lambda>k. quiet)\<rparr>"

section \<open>The broker\<close>

declare wait_loop.simps [simp del]


text \<open>Every call of \<open>post_driver\<close> raises and leaves the state as it is.\<close>

lemma post_driver_raises:
  "post_driver d s = (Inl (AttributeError ''Condition object has no attribute waiters''), s)"
  by (simp add: post_driver_def condition_waiters_def)

lemma driver_endpoint_fails: "driver_endpoint d s = (500, s)"
  by (simp add: driver_endpoint_def post_driver_raises)

lemma submit_all_Nil: "submit_all [] s = s"
  by (simp add: submit_all_def)

lemma submit_all_same: "submit_all ds s = s"
  by (induction ds) (simp_all add: submit_all_def driver_endpoint_fails)

lemma busy_phase_eq: "busy_phase te s = s\<lparr>clock := clock s + max 0 (busy te)\<rparr>"
  by (simp add: busy_phase_def submit_all_same)

text \<open>No submission wakes the thread: it stays blocked until the timeout.\<close>

lemma blocked_times_out:
  "blocked sched t s = ([], s\<lparr>waiters := waiters s - 1, clock := clock s + t\<rparr>)"
proof (induction sched arbitrary: t s)
  case Nil
  show ?case by simp
next
  case (Cons w sched)
  obtain delay reports where w: "w = (delay, reports)" by (cases w)
  show ?case
  proof (cases "t \<le> max 0 delay")
    case True
    then show ?thesis by (simp add: w)
  next
    case False
    then show ?thesis
      using Cons.IH[of "t - max 0 delay" "s\<lparr>clock := clock s + max 0 delay\<rparr>"]
      by (simp add: w submit_all_same)
  qed
qed

lemma condition_wait_times_out:
  "condition_wait sched t s = ([], s\<lparr>clock := clock s + t\<rparr>)"
  by (simp add: condition_wait_def blocked_times_out)

lemma wait_loop_available:
  "driver_queue s = d # q \<Longrightarrow>
   wait_loop sched deadline s = (or_None (strip (str_or d [])), s\<lparr>driver_queue := q\<rparr>)"
  by (subst wait_loop.simps) simp

lemma wait_loop_expired:
  "driver_queue s = [] \<Longrightarrow> deadline \<le> clock s \<Longrightarrow> wait_loop sched deadline s = (None, s)"
  by (subst wait_loop.simps) simp

text \<open>On an empty queue the loop ends with \<open>None\<close> at the deadline, whatever is submitted.\<close>

lemma wait_loop_empty:
  assumes "driver_queue s = []"
  shows "wait_loop sched deadline s = (None, s\<lparr>clock := max (clock s) deadline\<rparr>)"
proof (cases "deadline \<le> clock s")
  case True
  then show ?thesis using assms by (simp add: wait_loop_expired max_def)
next
  case False
  then have "wait_loop sched deadline s = wait_loop [] deadline (s\<lparr>clock := deadline\<rparr>)"
    using assms by (subst wait_loop.simps) (simp add: condition_wait_times_out)
  also have "\<dots> = (None, s\<lparr>clock := deadline\<rparr>)"
    using assms by (simp add: wait_loop_expired)
  finally show ?thesis using False by (simp add: max_def)
qed

lemma wait_empty:
  "driver_queue s = [] \<Longrightarrow>
   wait_for_driver_result t name sched s = (None, s\<lparr>clock := clock s + max t 0\<rparr>)"
  by (simp add: wait_for_driver_result_def wait_loop_empty max_def)

text \<open>
  C1: a report that \<open>post_driver\<close> receives is not enqueued, whether or not a thread is
  blocked in the wait, and so in particular when none is: the call raises at the read of
  \<open>waiters\<close> and leaves the state as it was. A later wait therefore returns what it would
  return had the report never been submitted, and the reports submitted during a trial before
  its wait begins change nothing of the trial.
\<close>

theorem post_driver_without_waiter_discards:
  "post_driver d s = (Inl (AttributeError ''Condition object has no attribute waiters''), s) \<and>
   driver_queue (snd (post_driver d s)) = driver_queue s \<and>
   wait_for_driver_result t name sched (snd (post_driver d s)) =
     wait_for_driver_result t name sched s \<and>
   run_trial cfg (te\<lparr>early_reports := ds\<rparr>) index fe s =
     run_trial cfg (te\<lparr>early_reports := []\<rparr>) index fe s"
proof -
  have b: "busy_phase (te\<lparr>early_reports := ds\<rparr>) (clear_driver_queue s) =
           busy_phase (te\<lparr>early_reports := []\<rparr>) (clear_driver_queue s)"
    by (simp add: busy_phase_eq)
  have "run_trial cfg (te\<lparr>early_reports := ds\<rparr>) index fe s =
        run_trial cfg (te\<lparr>early_reports := []\<rparr>) index fe s"
    unfolding run_trial_def Let_def b by (simp cong: sum.case_cong)
  then show ?thesis by (simp add: post_driver_raises)
qed



section \<open>The container runner\<close>

lemma returns_simps: "returns (Inr v) = True" "returns (Inl e) = False"
  by (simp_all add: returns_def)

lemma call_returns:
  "returns r \<Longrightarrow> call c r k = (c # fst (k (projr r)), snd (k (projr r)))"
  by (cases r) (simp_all add: call_def returns_def split: prod.splits)

lemma returns_call: "returns (snd (call c r k)) = (returns r \<and> returns (snd (k (projr r))))"
  by (cases r) (simp_all add: call_def returns_def split: prod.splits)

lemma set_call:
  "x \<in> set (fst (call c r k)) = (x = c \<or> returns r \<and> x \<in> set (fst (k (projr r))))"
  by (cases r) (simp_all add: call_def returns_def split: prod.splits)

lemma attempt_eq: "attempt c r k = (c # fst k, snd k)"
  by (simp add: attempt_def split: prod.splits)

lemma launched_iff:
  "launched rt =
     (returns (networks_list rt) \<and>
      returns (if \<not> projr (networks_list rt) then networks_create rt else networks_get rt) \<and>
      returns (inspect_network rt) \<and> returns (iptables_forward rt) \<and>
      returns (iptables_nat rt) \<and> returns (containers_run rt) \<and>
      returns (log_thread_start rt))"
  by (cases "networks_list rt") (simp_all add: launched_def returns_simps)

lemma launched_created: "launched rt = (created rt \<and> returns (log_thread_start rt))"
  by (cases "networks_list rt") (auto simp: launched_def created_def)

text \<open>The runner returns exactly when the container was launched.\<close>

lemma returns_run_bot_container: "returns (snd (run_bot_container rt)) = launched rt"
  unfolding run_bot_container_def launched_iff
  by (simp add: returns_call attempt_eq returns_simps)

lemma cleanup_in_trace:
  "ContainerStop \<in> set (fst (run_bot_container rt)) = launched rt"
  "ContainerRemove \<in> set (fst (run_bot_container rt)) = launched rt"
  unfolding run_bot_container_def launched_iff
  by (simp_all add: set_call attempt_eq)

lemma run_bot_container_launched:
  "launched rt \<Longrightarrow>
   run_bot_container rt =
     ([NetworksList,
       if \<not> projr (networks_list rt) then NetworksCreate else NetworksGet,
       InspectNetwork, IptablesForward, IptablesNat, StopContainer, ContainersRun,
       LogThreadStart, ContainerWait, ContainerStop, ContainerRemove], Inr ())"
  unfolding run_bot_container_def launched_iff
  by (simp add: call_returns attempt_eq)

text \<open>
  C7, as the code has it: once the container is launched, whatever the wait, the stop and
  the remove answer, the runner ends with the wait, one stop and one remove, in this order,
  and returns. When the runner raises before the container exists (network, firewall or
  \<open>containers.run\<close>), it attempts neither stop nor remove, and the exception leaves it.
\<close>

theorem cleanup_follows_launch:
  "(launched rt \<longrightarrow>
      count_list (fst (run_bot_container rt)) ContainerStop = 1 \<and>
      count_list (fst (run_bot_container rt)) ContainerRemove = 1 \<and>
      drop (length (fst (run_bot_container rt)) - 3) (fst (run_bot_container rt)) =
        [ContainerWait, ContainerStop, ContainerRemove] \<and>
      snd (run_bot_container rt) = Inr ()) \<and>
   (\<not> created rt \<longrightarrow>
      count_list (fst (run_bot_container rt)) ContainerStop = 0 \<and>
      count_list (fst (run_bot_container rt)) ContainerRemove = 0 \<and>
      \<not> returns (snd (run_bot_container rt)))"
proof (intro conjI impI)
  assume l: "launched rt"
  note r = run_bot_container_launched[OF l]
  show "count_list (fst (run_bot_container rt)) ContainerStop = 1" by (simp add: r)
  show "count_list (fst (run_bot_container rt)) ContainerRemove = 1" by (simp add: r)
  show "drop (length (fst (run_bot_container rt)) - 3) (fst (run_bot_container rt)) =
        [ContainerWait, ContainerStop, ContainerRemove]" by (simp add: r)
  show "snd (run_bot_container rt) = Inr ()" by (simp add: r)
next
  assume "\<not> created rt"
  then have l: "\<not> launched rt" by (simp add: launched_created)
  show "count_list (fst (run_bot_container rt)) ContainerStop = 0"
    using l by (simp add: count_list_0_iff cleanup_in_trace)
  show "count_list (fst (run_bot_container rt)) ContainerRemove = 0"
    using l by (simp add: count_list_0_iff cleanup_in_trace)
  show "\<not> returns (snd (run_bot_container rt))"
    using l by (simp add: returns_run_bot_container)
qed

theorem cleanup_follows_launch_witness:
  "launched (healthy\<lparr>container_wait := Inl (APIError ''read timed out''),
                    container_stop := Inl (Exception ''no such container''),
                    container_remove := Inl (Exception ''no such container'')\<rparr>) \<and>
   run_bot_container (healthy\<lparr>container_wait := Inl (APIError ''read timed out''),
                    container_stop := Inl (Exception ''no such container''),
                    container_remove := Inl (Exception ''no such container'')\<rparr>) =
     ([NetworksList, NetworksGet, InspectNetwork, IptablesForward, IptablesNat, StopContainer,
       ContainersRun, LogThreadStart, ContainerWait, ContainerStop, ContainerRemove], Inr ()) \<and>
   \<not> created (healthy\<lparr>networks_list := Inl (Exception ''engine down'')\<rparr>) \<and>
   run_bot_container (healthy\<lparr>networks_list := Inl (Exception ''engine down'')\<rparr>) =
     ([NetworksList], Inl (Exception ''engine down''))"
proof -
  let ?a = "healthy\<lparr>container_wait := Inl (APIError ''read timed out''),
                    container_stop := Inl (Exception ''no such container''),
                    container_remove := Inl (Exception ''no such container'')\<rparr>"
  let ?b = "healthy\<lparr>networks_list := Inl (Exception ''engine down'')\<rparr>"
  have a: "launched ?a" by (simp add: launched_def healthy_def returns_def)
  have b: "\<not> created ?b" by (simp add: created_def healthy_def)
  have ra: "run_bot_container ?a =
     ([NetworksList, NetworksGet, InspectNetwork, IptablesForward, IptablesNat, StopContainer,
       ContainersRun, LogThreadStart, ContainerWait, ContainerStop, ContainerRemove], Inr ())"
    by (simp add: run_bot_container_def call_def attempt_def healthy_def)
  have rb: "run_bot_container ?b = ([NetworksList], Inl (Exception ''engine down''))"
    by (simp add: run_bot_container_def call_def attempt_def healthy_def)
  show ?thesis
    using a b ra rb cleanup_follows_launch[of ?a] cleanup_follows_launch[of ?b] by simp
qed

text \<open>
  C7 as it is stated fails when the launch raises: \<open>containers.run\<close> raising ends the runner
  with the exception, and neither a stop nor a remove of the container is attempted.
\<close>

theorem launch_failure_counterexample:
  "run_bot_container (healthy\<lparr>containers_run := Inl (Exception ''no such image'')\<rparr>) =
     ([NetworksList, NetworksGet, InspectNetwork, IptablesForward, IptablesNat, StopContainer,
       ContainersRun], Inl (Exception ''no such image''))"
  by (simp add: run_bot_container_def call_def attempt_def healthy_def)

section \<open>The trial sequence is a shuffle\<close>

lemma length_shuffle_loop: "length (shuffle_loop i rs x) = length x"
  by (induction i arbitrary: rs x) (auto split: prod.splits)

lemma randbelow_less: "0 < n \<Longrightarrow> fst (randbelow rs n) < n"
  by (cases rs) (simp_all add: randbelow_def)

lemma mset_shuffle_loop: "i < length x \<Longrightarrow> mset (shuffle_loop i rs x) = mset x"
proof (induction i arbitrary: rs x)
  case 0
  then show ?case by simp
next
  case (Suc i)
  obtain j rs' where r: "randbelow rs (Suc i + 1) = (j, rs')"
    by (cases "randbelow rs (Suc i + 1)")
  have "j < Suc i + 1" using randbelow_less[of "Suc i + 1" rs] r by simp
  with Suc.prems have j: "j < length x" by simp
  have "mset (x[Suc i := x ! j, j := x ! Suc i]) = mset x"
    using Suc.prems j by (simp add: mset_swap)
  moreover have "mset (shuffle_loop i rs' (x[Suc i := x ! j, j := x ! Suc i])) =
                 mset (x[Suc i := x ! j, j := x ! Suc i])"
    using Suc.prems by (intro Suc.IH) simp
  ultimately show ?case using r by simp
qed

lemma mset_shuffle: "mset (shuffle rs x) = mset x"
  by (cases x) (simp_all add: shuffle_def mset_shuffle_loop)

lemma length_shuffle: "length (shuffle rs x) = length x"
  by (simp add: shuffle_def length_shuffle_loop)

lemma repeat_extend_eq: "repeat_extend n fs acc = acc @ concat (replicate n fs)"
  by (induction n arbitrary: acc) simp_all

lemma length_concat_replicate: "length (concat (replicate n fs)) = n * length fs"
  by (induction n) simp_all

lemma length_gen_ran_framework_sequence:
  "length (gen_ran_framework_sequence cfg rs) =
   repeated_framework_count cfg * length (framework_images cfg)"
  by (simp add: gen_ran_framework_sequence_def length_shuffle repeat_extend_eq
      length_concat_replicate)

section \<open>Trials, runs and the score\<close>

lemma or_None_not_empty: "or_None a \<noteq> Some []"
  by (simp add: or_None_def)

lemma wait_loop_detection_dict:
  "detection_dict (snd (wait_loop sched deadline s)) = detection_dict s"
  by (cases "driver_queue s") (simp_all add: wait_loop_empty wait_loop_available)

lemma wait_loop_not_empty: "fst (wait_loop sched deadline s) \<noteq> Some []"
  by (cases "driver_queue s") (simp_all add: wait_loop_empty wait_loop_available or_None_not_empty)

lemma busy_phase_detection_dict: "detection_dict (busy_phase te s) = detection_dict s"
  by (simp add: busy_phase_eq)

lemma wait_result_detection_dict:
  "detection_dict (snd (wait_for_driver_result t name sched s)) = detection_dict s"
  by (simp add: wait_for_driver_result_def wait_loop_detection_dict)

lemma wait_result_not_empty: "fst (wait_for_driver_result t name sched s) \<noteq> Some []"
  by (simp add: wait_for_driver_result_def wait_loop_not_empty)

lemma run_trial_human:
  assumes "framework_name fe = ''human''"
  shows "run_trial cfg te index fe s =
     record_outcome index
       \<lparr>detected = (observed cfg te fe s = Some ''human''),
        driver = ''human'',
        predicted = (case observed cfg te fe s of Some h \<Rightarrow> h | None \<Rightarrow> ''No driver reported''),
        execution_time =
          clock (snd (wait_for_driver_result (trial_timeout cfg fe) ''human'' (schedule te)
                        (busy_phase te (clear_driver_queue s)))) - clock s\<rparr>
       (snd (wait_for_driver_result (trial_timeout cfg fe) ''human'' (schedule te)
               (busy_phase te (clear_driver_queue s))))"
  using assms
  by (simp add: run_trial_def observed_def trial_timeout_def Let_def split: prod.splits sum.splits)

lemma run_trial_error:
  assumes "framework_name fe \<noteq> ''human''" and "snd (run_bot_container (engine te)) = Inl err"
  shows "run_trial cfg te index fe s =
     record_outcome index (error_outcome (framework_name fe) err)
       (busy_phase te (clear_driver_queue s))"
  using assms by (simp add: run_trial_def error_outcome_def Let_def)

lemma run_trial_bot:
  assumes "framework_name fe \<noteq> ''human''" and "launched (engine te)"
  shows "run_trial cfg te index fe s =
     record_outcome index
       \<lparr>detected = (observed cfg te fe s = Some (framework_name fe)),
        driver = framework_name fe,
        predicted = (case observed cfg te fe s of
                       Some dd \<Rightarrow> dd
                     | None \<Rightarrow> ''The script did not return any driver''),
        execution_time =
          clock (snd (wait_for_driver_result (trial_timeout cfg fe) (framework_name fe)
                        (schedule te) (busy_phase te (clear_driver_queue s)))) - clock s\<rparr>
       ((snd (wait_for_driver_result (trial_timeout cfg fe) (framework_name fe) (schedule te)
               (busy_phase te (clear_driver_queue s))))
        \<lparr>clock := clock (snd (wait_for_driver_result (trial_timeout cfg fe) (framework_name fe)
                         (schedule te) (busy_phase te (clear_driver_queue s)))) + 1\<rparr>)"
proof -
  have r: "snd (run_bot_container (engine te)) = Inr ()"
    using assms(2) by (simp add: run_bot_container_launched)
  obtain dd s3 where w: "wait_for_driver_result (bot_timeout cfg + DRIVER_GRACE_SECONDS)
      (framework_name fe) (schedule te) (busy_phase te (clear_driver_queue s)) = (dd, s3)"
    by (cases "wait_for_driver_result (bot_timeout cfg + DRIVER_GRACE_SECONDS)
      (framework_name fe) (schedule te) (busy_phase te (clear_driver_queue s))")
  have ne: "dd \<noteq> Some []"
    using wait_result_not_empty[of "bot_timeout cfg + DRIVER_GRACE_SECONDS" "framework_name fe"
        "schedule te" "busy_phase te (clear_driver_queue s)"] w by simp
  show ?thesis
    using assms(1) r w ne
    by (cases dd) (auto simp: run_trial_def observed_def trial_timeout_def Let_def)
qed

lemma map_of_append_to_same:
  "map_of (append_to k v d) k = Some ((case map_of d k of None \<Rightarrow> [] | Some vs \<Rightarrow> vs) @ [v])"
  by (induction d) auto

lemma map_of_append_to_other: "k' \<noteq> k \<Longrightarrow> map_of (append_to k v d) k' = map_of d k'"
  by (induction d) auto

lemma keys_append_to_new: "k \<notin> fst ` set d \<Longrightarrow> map fst (append_to k v d) = map fst d @ [k]"
  by (induction d) auto

lemma mset_append_to:
  "mset (concat (map snd (append_to k v d))) = add_mset v (mset (concat (map snd d)))"
  by (induction d) auto

lemma recorded_at_record_same:
  "recorded_at index (record_outcome index r s) = recorded_at index s @ [r]"
  by (simp add: recorded_at_def record_outcome_def map_of_append_to_same)

lemma recorded_at_record_other:
  "k \<noteq> index \<Longrightarrow> recorded_at k (record_outcome index r s) = recorded_at k s"
  by (simp add: recorded_at_def record_outcome_def map_of_append_to_other)

lemma recorded_at_cong: "detection_dict s = detection_dict s' \<Longrightarrow> recorded_at k s = recorded_at k s'"
  by (simp add: recorded_at_def)

text \<open>Every trial appends one outcome to the list of its index and touches no other list.\<close>

lemma run_trial_records:
  "\<exists>r s'. run_trial cfg te index fe s = record_outcome index r s' \<and>
          detection_dict s' = detection_dict s \<and>
          driver r = framework_name fe \<and>
          (detected r \<longleftrightarrow>
             reaches_wait te fe \<and> observed cfg te fe s = Some (framework_name fe)) \<and>
          (\<forall>err. framework_name fe \<noteq> ''human'' \<and>
                 snd (run_bot_container (engine te)) = Inl err \<longrightarrow>
                 r = error_outcome (framework_name fe) err)"
proof (cases "framework_name fe = ''human''")
  case True
  show ?thesis
    by (rule exI, rule exI, rule conjI, rule run_trial_human[OF True])
       (simp add: True reaches_wait_def wait_result_detection_dict busy_phase_detection_dict
          clear_driver_queue_def)
next
  case bot: False
  show ?thesis
  proof (cases "launched (engine te)")
    case True
    then have ne: "\<And>err. snd (run_bot_container (engine te)) \<noteq> Inl err"
      by (simp add: run_bot_container_launched)
    show ?thesis
      by (rule exI, rule exI, rule conjI, rule run_trial_bot[OF bot True])
         (simp add: True ne reaches_wait_def wait_result_detection_dict
            busy_phase_detection_dict clear_driver_queue_def)
  next
    case False
    then have "\<not> returns (snd (run_bot_container (engine te)))"
      by (simp add: returns_run_bot_container)
    then obtain err where e: "snd (run_bot_container (engine te)) = Inl err"
      by (cases "snd (run_bot_container (engine te))") (simp_all add: returns_simps)
    show ?thesis
      by (rule exI, rule exI, rule conjI, rule run_trial_error[OF bot e])
         (simp add: e bot False reaches_wait_def error_outcome_def
            busy_phase_detection_dict clear_driver_queue_def)
  qed
qed

lemma run_trial_recorded_same:
  "\<exists>r. recorded_at index (run_trial cfg te index fe s) = recorded_at index s @ [r] \<and>
        driver r = framework_name fe \<and>
        (detected r \<longleftrightarrow>
           reaches_wait te fe \<and> observed cfg te fe s = Some (framework_name fe)) \<and>
        (\<forall>err. framework_name fe \<noteq> ''human'' \<and>
               snd (run_bot_container (engine te)) = Inl err \<longrightarrow>
               r = error_outcome (framework_name fe) err)"
proof -
  obtain r s' where a: "run_trial cfg te index fe s = record_outcome index r s'"
    and b: "detection_dict s' = detection_dict s"
    and c: "driver r = framework_name fe"
       "detected r \<longleftrightarrow> reaches_wait te fe \<and> observed cfg te fe s = Some (framework_name fe)"
       "\<forall>err. framework_name fe \<noteq> ''human'' \<and>
               snd (run_bot_container (engine te)) = Inl err \<longrightarrow>
               r = error_outcome (framework_name fe) err"
    using run_trial_records[of cfg te index fe s] by blast
  have "recorded_at index (run_trial cfg te index fe s) = recorded_at index s @ [r]"
    using a recorded_at_cong[OF b] by (simp add: recorded_at_record_same)
  with c show ?thesis by blast
qed

lemma run_trial_recorded_other:
  "k \<noteq> index \<Longrightarrow> recorded_at k (run_trial cfg te index fe s) = recorded_at k s"
proof -
  assume k: "k \<noteq> index"
  obtain r s' where a: "run_trial cfg te index fe s = record_outcome index r s'"
    and b: "detection_dict s' = detection_dict s"
    using run_trial_records[of cfg te index fe s] by blast
  show ?thesis
    using a k recorded_at_cong[OF b] by (simp add: recorded_at_record_other)
qed

lemma run_trial_keys:
  "index \<notin> fst ` set (detection_dict s) \<Longrightarrow>
   map fst (detection_dict (run_trial cfg te index fe s)) = map fst (detection_dict s) @ [index]"
proof -
  assume k: "index \<notin> fst ` set (detection_dict s)"
  obtain r s' where a: "run_trial cfg te index fe s = record_outcome index r s'"
    and b: "detection_dict s' = detection_dict s"
    using run_trial_records[of cfg te index fe s] by blast
  show ?thesis
    using a b k by (simp add: record_outcome_def keys_append_to_new)
qed

lemma recorded_at_absent:
  "k \<notin> fst ` set (detection_dict s) \<Longrightarrow> recorded_at k s = []"
  by (simp add: recorded_at_def map_of_eq_None_iff[THEN iffD2])

lemma trial_loop_keys:
  "map fst (detection_dict s) = [0..<i] \<Longrightarrow>
   map fst (detection_dict (trial_loop cfg tes i fes s)) = [0..<i + length fes]"
proof (induction fes arbitrary: i s)
  case Nil
  then show ?case by simp
next
  case (Cons fe fes)
  have "fst ` set (detection_dict s) = set [0..<i]"
    using Cons.prems by (metis set_map)
  then have "i \<notin> fst ` set (detection_dict s)" by simp
  then have "map fst (detection_dict (run_trial cfg (tes i) i fe s)) = [0..<Suc i]"
    using Cons.prems by (simp add: run_trial_keys)
  from Cons.IH[OF this] show ?case by simp
qed

lemma trial_loop_earlier:
  "k < i \<Longrightarrow> recorded_at k (trial_loop cfg tes i fes s) = recorded_at k s"
  by (induction fes arbitrary: i s) (simp_all add: run_trial_recorded_other)

lemma trial_loop_recorded:
  assumes "k < length fes"
  shows "\<exists>r. recorded_at (i + k) (trial_loop cfg tes i fes s) = recorded_at (i + k) s @ [r] \<and>
        driver r = framework_name (fes ! k) \<and>
        (\<forall>err. framework_name (fes ! k) \<noteq> ''human'' \<and>
               snd (run_bot_container (engine (tes (i + k)))) = Inl err \<longrightarrow>
               r = error_outcome (framework_name (fes ! k)) err)"
  using assms
proof (induction fes arbitrary: i k s)
  case Nil
  then show ?case by simp
next
  case (Cons fe fes)
  show ?case
  proof (cases k)
    case 0
    obtain r where r: "recorded_at i (run_trial cfg (tes i) i fe s) = recorded_at i s @ [r]"
      "driver r = framework_name fe"
      "\<forall>err. framework_name fe \<noteq> ''human'' \<and>
             snd (run_bot_container (engine (tes i))) = Inl err \<longrightarrow>
             r = error_outcome (framework_name fe) err"
      using run_trial_recorded_same[of i cfg "tes i" fe s] by blast
    have "recorded_at i (trial_loop cfg tes (Suc i) fes (run_trial cfg (tes i) i fe s)) =
          recorded_at i (run_trial cfg (tes i) i fe s)"
      by (rule trial_loop_earlier) simp
    with r 0 show ?thesis by auto
  next
    case (Suc k')
    then have k': "k' < length fes" using Cons.prems by simp
    obtain r where r:
      "recorded_at (Suc i + k') (trial_loop cfg tes (Suc i) fes (run_trial cfg (tes i) i fe s)) =
         recorded_at (Suc i + k') (run_trial cfg (tes i) i fe s) @ [r]"
      "driver r = framework_name (fes ! k')"
      "\<forall>err. framework_name (fes ! k') \<noteq> ''human'' \<and>
             snd (run_bot_container (engine (tes (Suc i + k')))) = Inl err \<longrightarrow>
             r = error_outcome (framework_name (fes ! k')) err"
      using Cons.IH[OF k', of "Suc i" "run_trial cfg (tes i) i fe s"] by blast
    have "recorded_at (Suc i + k') (run_trial cfg (tes i) i fe s) = recorded_at (Suc i + k') s"
      by (rule run_trial_recorded_other) simp
    with r Suc show ?thesis by auto
  qed
qed

lemma count_detections_eq:
  "count_detections fr =
   (length (concat (map snd fr)), length (filter detected (concat (map snd fr))))"
proof -
  define step :: "outcome \<Rightarrow> nat \<times> nat \<Rightarrow> nat \<times> nat" where
    "step = (\<lambda>result (total_detections, successful_detections).
               (total_detections + 1,
                if detected result then successful_detections + 1
                else successful_detections))"
  have inner: "fold step rs (t0, k0) = (t0 + length rs, k0 + length (filter detected rs))"
    for rs t0 k0
    by (induction rs arbitrary: t0 k0) (simp_all add: step_def)
  have outer: "fold (\<lambda>(name, results) acc. fold step results acc) gs (t0, k0) =
      (t0 + length (concat (map snd gs)), k0 + length (filter detected (concat (map snd gs))))"
    for gs :: "(string \<times> outcome list) list" and t0 k0
    by (induction gs arbitrary: t0 k0) (auto simp: inner)
  have "count_detections fr = fold (\<lambda>(name, results) acc. fold step results acc) fr (0, 0)"
    unfolding count_detections_def step_def ..
  then show ?thesis by (simp add: outer)
qed

lemma mset_fold_append_to:
  "mset (concat (map snd (fold (\<lambda>result fr'. append_to (driver result) result fr') rs fr))) =
   mset rs + mset (concat (map snd fr))"
  by (induction rs arbitrary: fr) (simp_all add: mset_append_to)

lemma mset_fold_groups:
  "mset (concat (map snd
     (fold (\<lambda>(index, results) fr.
              fold (\<lambda>result fr'. append_to (driver result) result fr') results fr) dd fr0))) =
   mset (concat (map snd dd)) + mset (concat (map snd fr0))"
  by (induction dd arbitrary: fr0) (auto simp: mset_fold_append_to)

lemma mset_framework_results_of:
  "mset (concat (map snd (framework_results_of dd))) = mset (recorded_outcomes dd)"
  by (simp add: framework_results_of_def recorded_outcomes_def mset_fold_groups)

lemma count_detections_regrouped:
  "count_detections (framework_results_of dd) =
   (length (recorded_outcomes dd), length (filter detected (recorded_outcomes dd)))"
proof -
  let ?xs = "concat (map snd (framework_results_of dd))"
  have "length ?xs = length (recorded_outcomes dd)"
    using mset_framework_results_of[of dd] by (metis size_mset)
  moreover have "length (filter detected ?xs) = length (filter detected (recorded_outcomes dd))"
    using mset_framework_results_of[of dd] by (metis mset_filter size_mset)
  ultimately show ?thesis by (simp add: count_detections_eq)
qed

lemma calc_score_eq:
  "calc_score dd =
     (if recorded_outcomes dd = [] then 0
      else real (length (filter detected (recorded_outcomes dd))) /
           real (length (recorded_outcomes dd)))"
  by (simp add: calc_score_def count_detections_regrouped)

lemma calc_score_range: "0 \<le> calc_score dd \<and> calc_score dd \<le> 1"
proof -
  have "length (filter detected (recorded_outcomes dd)) \<le> length (recorded_outcomes dd)"
    by (rule length_filter_le)
  then show ?thesis
    by (simp add: calc_score_eq divide_le_eq_1)
qed

lemma returns_cases: "returns r \<Longrightarrow> \<exists>v. r = Inr v"
  by (cases r) (simp_all add: returns_def)

lemma not_returns_cases: "\<not> returns r \<Longrightarrow> \<exists>e. r = Inl e"
  by (cases r) (simp_all add: returns_def)

lemma score_completes:
  "setup_ok env \<Longrightarrow>
   score cfg env s =
     (Inr (calc_score (detection_dict (after_trials cfg env s))),
      clear_driver_queue (after_trials cfg env s))"
  unfolding setup_ok_def
  by (auto dest!: returns_cases simp: score_def after_trials_def Let_def)

lemma score_copy_failed:
  "copy_detector_file env = Inl e \<Longrightarrow>
   score cfg env s = (Inl e, clear_driver_queue (s\<lparr>detection_dict := []\<rparr>))"
  by (simp add: score_def Let_def clear_driver_queue_def)

lemma score_docker_failed:
  "returns (copy_detector_file env) \<Longrightarrow> docker_from_env env = Inl e \<Longrightarrow>
   score cfg env s = (Inl e, clear_driver_queue (s\<lparr>detection_dict := []\<rparr>))"
  by (auto dest!: returns_cases simp: score_def Let_def clear_driver_queue_def)

lemma score_returns: "returns (fst (score cfg env s)) = setup_ok env"
proof (cases "setup_ok env")
  case True
  then show ?thesis by (simp add: score_completes returns_simps)
next
  case False
  show ?thesis
  proof (cases "returns (copy_detector_file env)")
    case True
    with False have "\<not> returns (docker_from_env env)" by (simp add: setup_ok_def)
    then obtain e where "docker_from_env env = Inl e" using not_returns_cases by blast
    with True False show ?thesis by (simp add: score_docker_failed returns_simps)
  next
    case c: False
    then obtain e where "copy_detector_file env = Inl e" using not_returns_cases by blast
    with False show ?thesis by (simp add: score_copy_failed returns_simps)
  qed
qed

lemma score_queue_empty: "driver_queue (snd (score cfg env s)) = []"
  by (simp add: score_def Let_def clear_driver_queue_def split: sum.splits)

lemma score_forgets:
  "score cfg env (s\<lparr>detection_dict := dd, driver_queue := q\<rparr>) = score cfg env s"
  by (simp add: score_def clear_driver_queue_def)

lemma run_trial_forgets_queue:
  "run_trial cfg te index fe (s\<lparr>driver_queue := q\<rparr>) =
   run_trial cfg te index fe (s\<lparr>driver_queue := []\<rparr>)"
  by (simp add: run_trial_def clear_driver_queue_def)

text \<open>
  C3: the score is the number of recorded outcomes with \<open>detected\<close> set, divided by the
  number of recorded outcomes, and 0 when there is none; three of four give 0.75; and the
  score that a completed run returns is this value for the outcomes it recorded.
\<close>

theorem score_is_matched_ratio:
  "calc_score dd =
     (if recorded_outcomes dd = [] then 0
      else real (length (filter detected (recorded_outcomes dd))) /
           real (length (recorded_outcomes dd))) \<and>
   (length (recorded_outcomes dd) = 4 \<and> length (filter detected (recorded_outcomes dd)) = 3 \<longrightarrow>
      calc_score dd = 0.75) \<and>
   (recorded_outcomes dd = [] \<longrightarrow> calc_score dd = 0) \<and>
   (\<forall>v. fst (score cfg env s) = Inr v \<longrightarrow>
        v = calc_score (detection_dict (snd (score cfg env s))))"
proof (intro conjI impI allI)
  show "calc_score dd =
     (if recorded_outcomes dd = [] then 0
      else real (length (filter detected (recorded_outcomes dd))) /
           real (length (recorded_outcomes dd)))"
    by (rule calc_score_eq)
next
  assume "length (recorded_outcomes dd) = 4 \<and> length (filter detected (recorded_outcomes dd)) = 3"
  then show "calc_score dd = 0.75"
    by (auto simp: calc_score_eq)
next
  assume "recorded_outcomes dd = []"
  then show "calc_score dd = 0" by (simp add: calc_score_eq)
next
  fix v
  assume v: "fst (score cfg env s) = Inr v"
  then have "returns (fst (score cfg env s))" by (simp add: returns_simps)
  then have ok: "setup_ok env" by (simp add: score_returns)
  show "v = calc_score (detection_dict (snd (score cfg env s)))"
    using v by (simp add: score_completes[OF ok] clear_driver_queue_def)
qed

theorem score_is_matched_ratio_witness:
  "calc_score [(0, [outcome_of ''chrome'' ''chrome'']), (1, [outcome_of ''firefox'' ''firefox'']),
               (2, [outcome_of ''chrome'' ''edge'']), (3, [outcome_of ''human'' ''human''])] = 0.75 \<and>
   calc_score [] = 0 \<and>
   fst (score two_frameworks (calm\<lparr>copy_detector_file := Inl (Exception ''disk full'')\<rparr>) idle) =
     Inl (Exception ''disk full'')"
proof -
  let ?dd = "[(0, [outcome_of ''chrome'' ''chrome'']), (1, [outcome_of ''firefox'' ''firefox'']),
               (2, [outcome_of ''chrome'' ''edge'']), (3, [outcome_of ''human'' ''human''])]"
  have a: "length (recorded_outcomes ?dd) = 4 \<and>
           length (filter detected (recorded_outcomes ?dd)) = 3"
    by (simp add: recorded_outcomes_def outcome_of_def)
  have b: "recorded_outcomes [] = []"
    by (simp add: recorded_outcomes_def)
  have c: "fst (score two_frameworks (calm\<lparr>copy_detector_file := Inl (Exception ''disk full'')\<rparr>)
             idle) = Inl (Exception ''disk full'')"
    by (simp add: score_def calm_def)
  show ?thesis
    using a b c score_is_matched_ratio[of ?dd] score_is_matched_ratio[of "[]"]
    by simp
qed

text \<open>Every trial waits on an empty queue, so its wait returns \<open>None\<close>.\<close>

lemma observed_None: "observed cfg te fe s = None"
  by (simp add: observed_def wait_empty busy_phase_eq clear_driver_queue_def)

lemma launched_healthy: "launched healthy"
  by (simp add: launched_def healthy_def returns_def)

text \<open>
  C4: what the code does where the property asks for a match. The recorded outcome has
  \<open>detected\<close> set exactly when the trial reached its wait and the wait returned the name of
  the framework; but the wait of a trial never returns a report, since every submission ends
  in \<open>post_driver\<close> raising, and no trial ever records a match. With \<open>firefox\<close> submitted
  two seconds into the wait of the \<open>firefox\<close> trial, the endpoint answers 500, the wait
  times out after 20 seconds and the outcome is the one of a script that returned nothing.
\<close>

theorem firefox_report_is_not_detected:
  "(detected (last (recorded_at index (run_trial cfg te index fe s))) \<longleftrightarrow>
      reaches_wait te fe \<and> observed cfg te fe s = Some (framework_name fe)) \<and>
   \<not> detected (last (recorded_at index (run_trial cfg te index fe s))) \<and>
   driver_endpoint ''firefox'' s = (500, s) \<and>
   last (recorded_at 0
      (run_trial two_frameworks (quiet\<lparr>schedule := [(2, [''firefox''])]\<rparr>) 0 firefox idle)) =
     \<lparr>detected = False, driver = ''firefox'',
      predicted = ''The script did not return any driver'', execution_time = 23\<rparr>"
proof (intro conjI)
  obtain x where x: "recorded_at index (run_trial cfg te index fe s) = recorded_at index s @ [x]"
    and d: "detected x \<longleftrightarrow>
              reaches_wait te fe \<and> observed cfg te fe s = Some (framework_name fe)"
    using run_trial_recorded_same[of index cfg te fe s] by blast
  show iff: "detected (last (recorded_at index (run_trial cfg te index fe s))) \<longleftrightarrow>
      reaches_wait te fe \<and> observed cfg te fe s = Some (framework_name fe)"
    using x d by simp
  show "\<not> detected (last (recorded_at index (run_trial cfg te index fe s)))"
    using iff by (simp add: observed_None)
  show "driver_endpoint ''firefox'' s = (500, s)"
    by (rule driver_endpoint_fails)
  let ?te = "quiet\<lparr>schedule := [(2, [''firefox''])]\<rparr>"
  have n: "framework_name firefox \<noteq> ''human''"
    by (simp add: firefox_def)
  have l: "launched (engine ?te)"
    by (simp add: quiet_def launched_healthy)
  have w: "wait_for_driver_result (trial_timeout two_frameworks firefox) (framework_name firefox)
             (schedule ?te) (busy_phase ?te (clear_driver_queue idle)) =
           (None, idle\<lparr>clock := 23\<rparr>)"
    by (simp add: wait_empty busy_phase_eq clear_driver_queue_def idle_def quiet_def
        trial_timeout_def two_frameworks_def firefox_def DRIVER_GRACE_SECONDS_def)
  show "last (recorded_at 0 (run_trial two_frameworks ?te 0 firefox idle)) =
     \<lparr>detected = False, driver = ''firefox'',
      predicted = ''The script did not return any driver'', execution_time = 23\<rparr>"
    unfolding run_trial_bot[OF n l] recorded_at_record_same w
    by (simp add: observed_None firefox_def idle_def)
qed

text \<open>
  C5: a run starts from an empty \<open>detection_dict\<close> and an empty queue, so that nothing of
  what they held before changes the run; the queue is empty when the run ends, whether it
  returns or raises; and every trial starts by clearing the queue, so that nothing of what the
  queue held before changes the trial.
\<close>

theorem run_and_trials_start_clean:
  "score cfg env (s\<lparr>detection_dict := dd, driver_queue := q\<rparr>) = score cfg env s \<and>
   driver_queue (snd (score cfg env s)) = [] \<and>
   run_trial cfg te index fe (s\<lparr>driver_queue := q\<rparr>) =
     run_trial cfg te index fe (s\<lparr>driver_queue := []\<rparr>)"
proof (intro conjI)
  show "score cfg env (s\<lparr>detection_dict := dd, driver_queue := q\<rparr>) = score cfg env s"
    by (rule score_forgets)
  show "driver_queue (snd (score cfg env s)) = []"
    by (rule score_queue_empty)
  show "run_trial cfg te index fe (s\<lparr>driver_queue := q\<rparr>) =
        run_trial cfg te index fe (s\<lparr>driver_queue := []\<rparr>)"
    by (rule run_trial_forgets_queue)
qed

lemma recorded_at_clear: "recorded_at k (clear_driver_queue s) = recorded_at k s"
  by (simp add: recorded_at_def clear_driver_queue_def)

lemma recorded_at_reset: "recorded_at k (clear_driver_queue (s\<lparr>detection_dict := []\<rparr>)) = []"
  by (simp add: recorded_at_def clear_driver_queue_def)

lemma after_trials_keys:
  "map fst (detection_dict (after_trials cfg env s)) =
   [0..<length (gen_ran_framework_sequence cfg (random_source env))]"
  unfolding after_trials_def
  using trial_loop_keys[of "clear_driver_queue (s\<lparr>detection_dict := []\<rparr>)" 0 cfg "trial_envs env"
      "gen_ran_framework_sequence cfg (random_source env)"]
  by (simp add: clear_driver_queue_def)

lemma after_trials_recorded:
  assumes "k < length (gen_ran_framework_sequence cfg (random_source env))"
  shows "\<exists>r. recorded_at k (after_trials cfg env s) = [r] \<and>
        driver r = framework_name (gen_ran_framework_sequence cfg (random_source env) ! k) \<and>
        (\<forall>err. framework_name (gen_ran_framework_sequence cfg (random_source env) ! k) \<noteq> ''human'' \<and>
               snd (run_bot_container (engine (trial_envs env k))) = Inl err \<longrightarrow>
               r = error_outcome
                     (framework_name (gen_ran_framework_sequence cfg (random_source env) ! k)) err)"
  unfolding after_trials_def
  using trial_loop_recorded[OF assms, of 0 cfg "trial_envs env"
      "clear_driver_queue (s\<lparr>detection_dict := []\<rparr>)"]
  by (simp add: recorded_at_reset)

lemma score_state_completes:
  "setup_ok env \<Longrightarrow> snd (score cfg env s) = clear_driver_queue (after_trials cfg env s)"
  by (simp add: score_completes)

lemma length_concat_singletons:
  "\<forall>x \<in> set xss. length x = 1 \<Longrightarrow> length (concat xss) = length xss"
  by (induction xss) simp_all

lemma all_recorded_once:
  assumes keys: "map fst (detection_dict s) = [0..<n]"
    and one: "\<forall>k<n. length (recorded_at k s) = 1"
  shows "length (recorded_outcomes (detection_dict s)) = n"
proof -
  have d: "distinct (map fst (detection_dict s))"
    using keys by simp
  have "\<forall>x \<in> set (map snd (detection_dict s)). length x = 1"
  proof
    fix x
    assume "x \<in> set (map snd (detection_dict s))"
    then obtain k where kx: "(k, x) \<in> set (detection_dict s)" by auto
    then have "k \<in> set (map fst (detection_dict s))" by force
    then have k: "k < n" using keys by simp
    have "map_of (detection_dict s) k = Some x"
      using d kx by simp
    then have "recorded_at k s = x" by (simp add: recorded_at_def)
    with one k show "length x = 1" by auto
  qed
  then have "length (concat (map snd (detection_dict s))) = length (map snd (detection_dict s))"
    by (rule length_concat_singletons)
  also have "\<dots> = length (map fst (detection_dict s))" by simp
  also have "\<dots> = n" using keys by simp
  finally show ?thesis by (simp add: recorded_outcomes_def)
qed

text \<open>
  C6: when the container runner raises in trial \<open>k\<close> of a run, the handler of the trial
  records for \<open>k\<close> one outcome with \<open>detected\<close> unset, the name of the framework, the
  placeholder \<open>Error: \<close> followed by the message, and the execution time 0; all the trials of
  the sequence, those after \<open>k\<close> too, record their outcome, and the run returns its score.
\<close>

theorem trial_error_becomes_outcome:
  assumes "setup_ok env"
    and "k < length (gen_ran_framework_sequence cfg (random_source env))"
    and "framework_name (gen_ran_framework_sequence cfg (random_source env) ! k) \<noteq> ''human''"
    and "snd (run_bot_container (engine (trial_envs env k))) = Inl err"
  shows "recorded_at k (snd (score cfg env s)) =
           [error_outcome
              (framework_name (gen_ran_framework_sequence cfg (random_source env) ! k)) err] \<and>
         map fst (detection_dict (snd (score cfg env s))) =
           [0..<length (gen_ran_framework_sequence cfg (random_source env))] \<and>
         (\<forall>j<length (gen_ran_framework_sequence cfg (random_source env)).
            length (recorded_at j (snd (score cfg env s))) = 1) \<and>
         returns (fst (score cfg env s))"
proof (intro conjI allI impI)
  note st = score_state_completes[OF assms(1), of cfg s]
  show "recorded_at k (snd (score cfg env s)) =
           [error_outcome
              (framework_name (gen_ran_framework_sequence cfg (random_source env) ! k)) err]"
    using after_trials_recorded[OF assms(2), of s] assms(3,4)
    by (auto simp: st recorded_at_clear)
  show "map fst (detection_dict (snd (score cfg env s))) =
           [0..<length (gen_ran_framework_sequence cfg (random_source env))]"
    using after_trials_keys[of cfg env s] by (simp add: st clear_driver_queue_def)
  show "returns (fst (score cfg env s))"
    using assms(1) by (simp add: score_returns)
  fix j
  assume "j < length (gen_ran_framework_sequence cfg (random_source env))"
  from after_trials_recorded[OF this, of s]
  show "length (recorded_at j (snd (score cfg env s))) = 1"
    by (auto simp: st recorded_at_clear)
qed

lemma sequence_two_frameworks:
  "gen_ran_framework_sequence two_frameworks [] = [human, firefox]"
  by (simp add: gen_ran_framework_sequence_def two_frameworks_def shuffle_def randbelow_def)

theorem trial_error_becomes_outcome_witness:
  "recorded_at 1 (snd (score two_frameworks
      (calm\<lparr>trial_envs := (\<lambda>k. quiet\<lparr>engine := healthy\<lparr>containers_run :=
                 Inl (Exception ''no such image'')\<rparr>\<rparr>)\<rparr>) idle)) =
     [\<lparr>detected = False, driver = ''firefox'', predicted = ''Error: no such image'',
       execution_time = 0\<rparr>] \<and>
   map fst (detection_dict (snd (score two_frameworks
      (calm\<lparr>trial_envs := (\<lambda>k. quiet\<lparr>engine := healthy\<lparr>containers_run :=
                 Inl (Exception ''no such image'')\<rparr>\<rparr>)\<rparr>) idle))) = [0, 1]"
proof -
  let ?env = "calm\<lparr>trial_envs := (\<lambda>k. quiet\<lparr>engine := healthy\<lparr>containers_run :=
                 Inl (Exception ''no such image'')\<rparr>\<rparr>)\<rparr>"
  have rs: "random_source ?env = []"
    by (simp add: calm_def)
  have seq: "gen_ran_framework_sequence two_frameworks (random_source ?env) = [human, firefox]"
    unfolding rs by (rule sequence_two_frameworks)
  have a: "setup_ok ?env"
    by (simp add: setup_ok_def calm_def returns_def)
  have b: "1 < length (gen_ran_framework_sequence two_frameworks (random_source ?env))"
    unfolding seq by simp
  have c: "framework_name (gen_ran_framework_sequence two_frameworks (random_source ?env) ! 1)
           \<noteq> ''human''"
    unfolding seq by (simp add: firefox_def)
  have d: "snd (run_bot_container (engine (trial_envs ?env 1))) = Inl (Exception ''no such image'')"
    by (simp add: quiet_def run_bot_container_def call_def attempt_def healthy_def)
  have e: "error_outcome (framework_name ([human, firefox] ! 1)) (Exception ''no such image'') =
     \<lparr>detected = False, driver = ''firefox'', predicted = ''Error: no such image'',
       execution_time = 0\<rparr>"
    by (simp add: error_outcome_def firefox_def)
  have f: "[0..<length [human, firefox]] = [0, 1]"
    by (simp add: upt_rec)
  show ?thesis
    using trial_error_becomes_outcome[OF a b c d, of idle] unfolding seq e f by blast
qed

lemma score_setup_failed:
  "\<not> setup_ok env \<Longrightarrow>
   \<exists>e. score cfg env s = (Inl e, clear_driver_queue (s\<lparr>detection_dict := []\<rparr>))"
proof (cases "returns (copy_detector_file env)")
  case True
  assume "\<not> setup_ok env"
  with True have "\<not> returns (docker_from_env env)" by (simp add: setup_ok_def)
  then obtain e where "docker_from_env env = Inl e" using not_returns_cases by blast
  with True show ?thesis by (simp add: score_docker_failed)
next
  case False
  then obtain e where "copy_detector_file env = Inl e" using not_returns_cases by blast
  then show ?thesis by (simp add: score_copy_failed)
qed

lemma post_score_eq:
  "fst (post_score cfg env s) = (case fst (score cfg env s) of Inl e \<Rightarrow> None | Inr v \<Rightarrow> Some v)"
  by (simp add: post_score_def split: prod.splits sum.splits)

text \<open>
  C8: the endpoint returns the score of the run when \<open>score\<close> returns and \<open>None\<close> when
  it raises; \<open>score\<close> raises exactly when the setup fails, that is when the copy of the
  submitted script or the connection to the container engine raises, and then with that
  exception; a score that is returned lies between 0 and 1.
\<close>

theorem post_score_returns_score_or_null:
  "fst (post_score cfg env s) =
     (case fst (score cfg env s) of Inl e \<Rightarrow> None | Inr v \<Rightarrow> Some v) \<and>
   (returns (fst (score cfg env s)) \<longleftrightarrow> setup_ok env) \<and>
   (\<forall>e. copy_detector_file env = Inl e \<longrightarrow> fst (score cfg env s) = Inl e) \<and>
   (\<not> setup_ok env \<longrightarrow> fst (post_score cfg env s) = None) \<and>
   (setup_ok env \<longrightarrow>
      (\<exists>v. fst (post_score cfg env s) = Some v \<and> 0 \<le> v \<and> v \<le> 1))"
proof (intro conjI allI impI)
  show "fst (post_score cfg env s) =
     (case fst (score cfg env s) of Inl e \<Rightarrow> None | Inr v \<Rightarrow> Some v)"
    by (rule post_score_eq)
  show "returns (fst (score cfg env s)) \<longleftrightarrow> setup_ok env"
    by (rule score_returns)
next
  fix e
  assume "copy_detector_file env = Inl e"
  then show "fst (score cfg env s) = Inl e"
    by (simp add: score_copy_failed)
next
  assume "\<not> setup_ok env"
  then obtain e where "score cfg env s = (Inl e, clear_driver_queue (s\<lparr>detection_dict := []\<rparr>))"
    using score_setup_failed by blast
  then show "fst (post_score cfg env s) = None"
    by (simp add: post_score_eq)
next
  assume ok: "setup_ok env"
  show "\<exists>v. fst (post_score cfg env s) = Some v \<and> 0 \<le> v \<and> v \<le> 1"
    using calc_score_range[of "detection_dict (after_trials cfg env s)"]
    by (simp add: post_score_eq score_completes[OF ok])
qed

theorem post_score_returns_score_or_null_witness:
  "fst (post_score two_frameworks (calm\<lparr>copy_detector_file := Inl (Exception ''disk full'')\<rparr>)
          idle) = None \<and>
   fst (post_score two_frameworks (calm\<lparr>docker_from_env := Inl (Exception ''no engine'')\<rparr>)
          idle) = None \<and>
   (\<exists>v. fst (post_score two_frameworks calm idle) = Some v \<and> 0 \<le> v \<and> v \<le> 1)"
proof -
  let ?a = "calm\<lparr>copy_detector_file := Inl (Exception ''disk full'')\<rparr>"
  let ?b = "calm\<lparr>docker_from_env := Inl (Exception ''no engine'')\<rparr>"
  have a: "\<not> setup_ok ?a" and b: "\<not> setup_ok ?b" and c: "setup_ok calm"
    by (simp_all add: setup_ok_def calm_def returns_def)
  show ?thesis
    using post_score_returns_score_or_null[of two_frameworks ?a idle]
      post_score_returns_score_or_null[of two_frameworks ?b idle]
      post_score_returns_score_or_null[of two_frameworks calm idle] a b c
    by blast
qed

text \<open>
  The shuffle reaches every arrangement: going down from the last position, the random
  number of each step can be the place where the element wanted at that position stands.
\<close>

lemma randbelow_Cons: "j < n \<Longrightarrow> randbelow (j # rs) n = (j, rs)"
  by (simp add: randbelow_def)

lemma shuffle_loop_reaches:
  assumes "length x = length y" and "i < length x"
    and "mset (take (Suc i) x) = mset (take (Suc i) y)"
    and "drop (Suc i) x = drop (Suc i) y"
  shows "\<exists>rs. shuffle_loop i rs x = y"
  using assms
proof (induction i arbitrary: x)
  case 0
  from "0.prems"(1,2) have ny: "0 < length y" by simp
  have tx: "take (Suc 0) x = [x ! 0]" and ty: "take (Suc 0) y = [y ! 0]"
    using "0.prems"(2) ny by (simp_all add: take_Suc_conv_app_nth)
  from "0.prems"(3) have h: "x ! 0 = y ! 0"
    unfolding tx ty by simp
  have "x = take (Suc 0) x @ drop (Suc 0) x" by simp
  also have "\<dots> = take (Suc 0) y @ drop (Suc 0) y"
    unfolding tx ty using h "0.prems"(4) by simp
  also have "\<dots> = y" by simp
  finally show ?case by simp
next
  case (Suc i)
  let ?k = "Suc i"
  have ky: "?k < length y" using Suc.prems(1,2) by simp
  have tx: "take (Suc ?k) x = take ?k x @ [x ! ?k]"
    using Suc.prems(2) by (simp add: take_Suc_conv_app_nth)
  have ty: "take (Suc ?k) y = take ?k y @ [y ! ?k]"
    using ky by (simp add: take_Suc_conv_app_nth)
  have "y ! ?k \<in> set (take (Suc ?k) y)"
    unfolding ty by simp
  then have "y ! ?k \<in> set (take (Suc ?k) x)"
    using Suc.prems(3) by (metis set_mset_mset)
  then obtain j where j: "j < Suc ?k" and jx: "j < length x" and xj: "x ! j = y ! ?k"
    by (auto simp: in_set_conv_nth)
  define x' where "x' = x[?k := x ! j, j := x ! ?k]"
  have len: "length x' = length y"
    using Suc.prems(1) by (simp add: x'_def)
  have at_k: "x' ! ?k = y ! ?k"
    using Suc.prems(2) jx xj by (cases "j = ?k") (simp_all add: x'_def)
  have all: "mset x' = mset x"
    unfolding x'_def using Suc.prems(2) jx by (simp add: mset_swap)
  have dr: "drop (Suc ?k) x' = drop (Suc ?k) x"
    using j by (simp add: x'_def)
  have whole: "mset (take (Suc ?k) x') = mset (take (Suc ?k) x)"
  proof -
    have "mset (take (Suc ?k) x') + mset (drop (Suc ?k) x') =
          mset (take (Suc ?k) x) + mset (drop (Suc ?k) x)"
      using all by (metis append_take_drop_id mset_append)
    then show ?thesis using dr by simp
  qed
  have tx': "take (Suc ?k) x' = take ?k x' @ [x' ! ?k]"
    using len ky by (simp add: take_Suc_conv_app_nth)
  have pre: "mset (take ?k x') = mset (take ?k y)"
  proof -
    have "mset (take ?k x') + {#y ! ?k#} = mset (take ?k y) + {#y ! ?k#}"
      using whole Suc.prems(3) unfolding tx' ty at_k by simp
    then show ?thesis by simp
  qed
  have post: "drop ?k x' = drop ?k y"
  proof -
    have "drop ?k x' = x' ! ?k # drop (Suc ?k) x'"
      using len ky by (simp add: Cons_nth_drop_Suc)
    also have "\<dots> = y ! ?k # drop (Suc ?k) y"
      using at_k dr Suc.prems(4) by simp
    also have "\<dots> = drop ?k y"
      using ky by (simp add: Cons_nth_drop_Suc)
    finally show ?thesis .
  qed
  have "i < length x'" using len ky by simp
  from Suc.IH[OF len this pre post] obtain rs where rs: "shuffle_loop i rs x' = y"
    by blast
  have "shuffle_loop ?k (j # rs) x = y"
    using j rs by (simp add: randbelow_Cons x'_def)
  then show ?case by blast
qed

lemma shuffle_reaches: "mset y = mset x \<Longrightarrow> \<exists>rs. shuffle rs x = y"
proof (cases x)
  case Nil
  assume "mset y = mset x"
  with Nil show ?thesis by (simp add: shuffle_def)
next
  case (Cons a x')
  assume m: "mset y = mset x"
  then have l: "length x = length y" by (metis size_mset)
  have "\<exists>rs. shuffle_loop (length x - 1) rs x = y"
    using l m Cons by (intro shuffle_loop_reaches) simp_all
  then show ?thesis by (simp add: shuffle_def)
qed

text \<open>
  C9: the generated sequence has as many entries as the repetition count times the number
  of configured frameworks, and it is a permutation of the configured frameworks repeated
  that many times; which permutation it is depends on the random numbers, and every
  arrangement of the repeated frameworks is generated for some random numbers. Every run
  whose setup returns runs its trials over a sequence generated in that run, from the
  configuration and the random numbers of the run.
\<close>

theorem gen_ran_framework_sequence_is_shuffle:
  "length (gen_ran_framework_sequence cfg rs) =
     repeated_framework_count cfg * length (framework_images cfg) \<and>
   mset (gen_ran_framework_sequence cfg rs) =
     mset (concat (replicate (repeated_framework_count cfg) (framework_images cfg))) \<and>
   (\<forall>ys. mset ys =
           mset (concat (replicate (repeated_framework_count cfg) (framework_images cfg))) \<longrightarrow>
         (\<exists>rs'. gen_ran_framework_sequence cfg rs' = ys)) \<and>
   snd (score cfg env s) =
     (if setup_ok env
      then clear_driver_queue
             (trial_loop cfg (trial_envs env) 0
                (gen_ran_framework_sequence cfg (random_source env))
                (clear_driver_queue (s\<lparr>detection_dict := []\<rparr>)))
      else clear_driver_queue (s\<lparr>detection_dict := []\<rparr>))"
proof (intro conjI allI impI)
  show "length (gen_ran_framework_sequence cfg rs) =
     repeated_framework_count cfg * length (framework_images cfg)"
    by (rule length_gen_ran_framework_sequence)
  show "mset (gen_ran_framework_sequence cfg rs) =
     mset (concat (replicate (repeated_framework_count cfg) (framework_images cfg)))"
    by (simp add: gen_ran_framework_sequence_def mset_shuffle repeat_extend_eq)
  show "snd (score cfg env s) =
     (if setup_ok env
      then clear_driver_queue
             (trial_loop cfg (trial_envs env) 0
                (gen_ran_framework_sequence cfg (random_source env))
                (clear_driver_queue (s\<lparr>detection_dict := []\<rparr>)))
      else clear_driver_queue (s\<lparr>detection_dict := []\<rparr>))"
  proof (cases "setup_ok env")
    case True
    then show ?thesis by (simp add: score_completes after_trials_def)
  next
    case False
    then obtain e where "score cfg env s = (Inl e, clear_driver_queue (s\<lparr>detection_dict := []\<rparr>))"
      using score_setup_failed by blast
    with False show ?thesis by simp
  qed
next
  fix ys
  assume "mset ys =
          mset (concat (replicate (repeated_framework_count cfg) (framework_images cfg)))"
  then have "\<exists>rs'. shuffle rs'
      (repeat_extend (repeated_framework_count cfg) (framework_images cfg) []) = ys"
    by (intro shuffle_reaches) (simp add: repeat_extend_eq)
  then show "\<exists>rs'. gen_ran_framework_sequence cfg rs' = ys"
    by (simp add: gen_ran_framework_sequence_def)
qed

theorem gen_ran_framework_sequence_is_shuffle_witness:
  "gen_ran_framework_sequence two_frameworks [] = [human, firefox] \<and>
   gen_ran_framework_sequence two_frameworks [1] = [firefox, human] \<and>
   (\<exists>rs'. gen_ran_framework_sequence two_frameworks rs' = [firefox, human]) \<and>
   (\<exists>rs'. gen_ran_framework_sequence two_frameworks rs' = [human, firefox])"
proof -
  have a: "gen_ran_framework_sequence two_frameworks [] = [human, firefox]"
    by (rule sequence_two_frameworks)
  have b: "gen_ran_framework_sequence two_frameworks [1] = [firefox, human]"
    by (simp add: gen_ran_framework_sequence_def two_frameworks_def shuffle_def randbelow_def)
  have m: "concat (replicate (repeated_framework_count two_frameworks)
             (framework_images two_frameworks)) = [firefox, human]"
    by (simp add: two_frameworks_def)
  have c: "\<exists>rs'. gen_ran_framework_sequence two_frameworks rs' = [firefox, human]"
    using gen_ran_framework_sequence_is_shuffle[of two_frameworks "[]" calm idle]
    unfolding m by blast
  have "mset [human, firefox] = mset [firefox, human]"
    by simp
  then have d: "\<exists>rs'. gen_ran_framework_sequence two_frameworks rs' = [human, firefox]"
    using gen_ran_framework_sequence_is_shuffle[of two_frameworks "[]" calm idle]
    unfolding m by blast
  show ?thesis
    using a b c d by blast
qed

lemma run_trial_adds_one:
  "length (recorded_at index (run_trial cfg te index fe s)) = length (recorded_at index s) + 1"
  using run_trial_recorded_same[of index cfg te fe s] by auto

lemma run_trial_timeout_placeholder:
  assumes "reaches_wait te fe" and "observed cfg te fe s = None"
  shows "predicted (last (recorded_at index (run_trial cfg te index fe s))) =
           (if framework_name fe = ''human'' then ''No driver reported''
            else ''The script did not return any driver'') \<and>
         \<not> detected (last (recorded_at index (run_trial cfg te index fe s)))"
proof (cases "framework_name fe = ''human''")
  case True
  show ?thesis
    unfolding run_trial_human[OF True] recorded_at_record_same
    using True assms(2) by simp
next
  case False
  with assms(1) have l: "launched (engine te)" by (simp add: reaches_wait_def)
  show ?thesis
    unfolding run_trial_bot[OF False l] recorded_at_record_same
    using False assms(2) by simp
qed

text \<open>
  C10: every trial adds exactly one outcome to the list of its index, also when its wait
  times out, in which case the predicted value is a placeholder; so after a run whose setup
  returned, the keys of \<open>detection_dict\<close> are the indices of the trials, each with one
  outcome, and the number of recorded outcomes, which is the denominator of the score, is the
  number of trials.
\<close>

theorem every_trial_records_one_outcome:
  "length (recorded_at index (run_trial cfg te index fe s)) = length (recorded_at index s) + 1 \<and>
   (reaches_wait te fe \<and> observed cfg te fe s = None \<longrightarrow>
      predicted (last (recorded_at index (run_trial cfg te index fe s))) =
        (if framework_name fe = ''human'' then ''No driver reported''
         else ''The script did not return any driver'')) \<and>
   (setup_ok env \<longrightarrow>
      map fst (detection_dict (snd (score cfg env s))) =
        [0..<repeated_framework_count cfg * length (framework_images cfg)] \<and>
      (\<forall>k<repeated_framework_count cfg * length (framework_images cfg).
         length (recorded_at k (snd (score cfg env s))) = 1) \<and>
      length (recorded_outcomes (detection_dict (snd (score cfg env s)))) =
        repeated_framework_count cfg * length (framework_images cfg) \<and>
      fst (count_detections (framework_results_of (detection_dict (snd (score cfg env s))))) =
        repeated_framework_count cfg * length (framework_images cfg))"
proof (intro conjI impI)
  show "length (recorded_at index (run_trial cfg te index fe s)) =
        length (recorded_at index s) + 1"
    by (rule run_trial_adds_one)
next
  assume "reaches_wait te fe \<and> observed cfg te fe s = None"
  then show "predicted (last (recorded_at index (run_trial cfg te index fe s))) =
        (if framework_name fe = ''human'' then ''No driver reported''
         else ''The script did not return any driver'')"
    by (simp add: run_trial_timeout_placeholder)
next
  assume ok: "setup_ok env"
  let ?n = "repeated_framework_count cfg * length (framework_images cfg)"
  let ?s = "snd (score cfg env s)"
  note st = score_state_completes[OF ok, of cfg s]
  have n: "length (gen_ran_framework_sequence cfg (random_source env)) = ?n"
    by (rule length_gen_ran_framework_sequence)
  show keys: "map fst (detection_dict ?s) = [0..<?n]"
    using after_trials_keys[of cfg env s] by (simp add: st n clear_driver_queue_def)
  show one: "\<forall>k<?n. length (recorded_at k ?s) = 1"
  proof (intro allI impI)
    fix k
    assume "k < ?n"
    then have "k < length (gen_ran_framework_sequence cfg (random_source env))"
      by (simp add: n)
    from after_trials_recorded[OF this, of s]
    show "length (recorded_at k ?s) = 1"
      by (auto simp: st recorded_at_clear)
  qed
  show total: "length (recorded_outcomes (detection_dict ?s)) = ?n"
    using keys one by (rule all_recorded_once)
  show "fst (count_detections (framework_results_of (detection_dict ?s))) = ?n"
    using total by (simp add: count_detections_regrouped)
qed

theorem every_trial_records_one_outcome_witness:
  "setup_ok calm \<and>
   map fst (detection_dict (snd (score two_frameworks calm idle))) = [0, 1] \<and>
   length (recorded_outcomes (detection_dict (snd (score two_frameworks calm idle)))) = 2 \<and>
   predicted (last (recorded_at 0 (run_trial two_frameworks quiet 0 human idle))) =
     ''No driver reported''"
proof -
  have c: "setup_ok calm"
    by (simp add: setup_ok_def calm_def returns_def)
  have r: "reaches_wait quiet human"
    by (simp add: reaches_wait_def human_def)
  have o: "observed two_frameworks quiet human idle = None"
    by (rule observed_None)
  have h: "framework_name human = ''human''"
    by (simp add: human_def)
  have n: "repeated_framework_count two_frameworks * length (framework_images two_frameworks) = 2"
    by (simp add: two_frameworks_def)
  have u: "[0..<2] = [0, 1::nat]"
    by (simp add: upt_rec)
  show ?thesis
    using every_trial_records_one_outcome[of 0 two_frameworks quiet human idle calm] c r o h
    unfolding n u by simp
qed

end
